theory Spec2Isabelle
  imports Complex_Main "HOL-Library.Log_Nat"
begin

section \<open>Python values used by \<^verbatim>\<open>desktop/scripts/generate-icon.py\<close>\<close>

subsection \<open>Exceptions\<close>

text \<open>
  The exception classes that can reach the script. \<open>OSError\<close> stands for the class
  and its subclasses (\<open>FileNotFoundError\<close>, \<open>PermissionError\<close>, ...); in Python 3
  \<open>IOError\<close> is another name of \<open>OSError\<close>, so the handler
  \<^verbatim>\<open>except (OSError, IOError)\<close> catches exactly \<open>OSError\<close>.
\<close>

datatype exn = OSError | ImportError | ValueError | MemoryError | OverflowError | ZeroDivisionError

definition caught_by_handler :: "exn \<Rightarrow> bool" where
  "caught_by_handler e = (e = OSError)"

subsection \<open>Floats: IEEE 754 binary64, round to nearest, ties to even\<close>

text \<open>
  A finite Python float is the rational number it denotes. Every arithmetic operation
  computes the exact rational result and rounds it to the nearest double (53 significant
  bits, exponents from -1074, ties to the even significand). \<open>None\<close> is an infinite
  result (the magnitude rounds to \<open>2 ^ 1024\<close> or more).
\<close>

definition pow2 :: "int \<Rightarrow> rat" where
  "pow2 e = (if 0 \<le> e then 2 ^ nat e else 1 / 2 ^ nat (- e))"

definition round_half_even :: "rat \<Rightarrow> int" where
  "round_half_even q =
     (let n = \<lfloor>q\<rfloor>; d = q - of_int n
      in if d < 1 / 2 then n else if 1 / 2 < d then n + 1 else if even n then n else n + 1)"

text \<open>\<open>binade a\<close> is the exponent \<open>e\<close> with \<open>2 ^ e \<le> a < 2 ^ (e + 1)\<close>, for \<open>0 < a\<close>.\<close>

definition binade :: "rat \<Rightarrow> int" where
  "binade a = (if 1 \<le> a then bitlen \<lfloor>a\<rfloor> - 1 else - bitlen (\<lceil>1 / a\<rceil> - 1))"

definition round_nearest :: "rat \<Rightarrow> rat" where
  "round_nearest x =
     (if x = 0 then 0
      else let a = \<bar>x\<bar>; s = max (binade a - 52) (- 1074)
           in sgn x * of_int (round_half_even (a / pow2 s)) * pow2 s)"

definition round_double :: "rat \<Rightarrow> rat option" where
  "round_double x =
     (let y = round_nearest x
      in if y \<noteq> 0 \<and> 1024 \<le> binade \<bar>y\<bar> then None else Some y)"

text \<open>\<^verbatim>\<open>float(i)\<close>, as in the implicit conversion of an int operand: too large an int raises.\<close>

definition float_of_int :: "int \<Rightarrow> exn + rat" where
  "float_of_int i =
     (case round_double (of_int i) of None \<Rightarrow> Inl OverflowError | Some f \<Rightarrow> Inr f)"

text \<open>\<^verbatim>\<open>a / b\<close> on two ints: the correctly rounded quotient, or an exception.\<close>

definition int_truediv :: "int \<Rightarrow> int \<Rightarrow> exn + rat" where
  "int_truediv a b =
     (if b = 0 then Inl ZeroDivisionError
      else case round_double (of_int a / of_int b) of
             None \<Rightarrow> Inl OverflowError
           | Some f \<Rightarrow> Inr f)"

definition float_sub :: "rat \<Rightarrow> rat \<Rightarrow> rat option" where
  "float_sub a b = round_double (a - b)"

definition float_mul :: "rat \<Rightarrow> rat \<Rightarrow> rat option" where
  "float_mul a b = round_double (a * b)"

text \<open>\<^verbatim>\<open>int(f)\<close> truncates towards zero; on an infinity it raises \<open>OverflowError\<close>.\<close>

definition py_int :: "rat option \<Rightarrow> exn + int" where
  "py_int f =
     (case f of
        None \<Rightarrow> Inl OverflowError
      | Some v \<Rightarrow> Inr (if 0 \<le> v then \<lfloor>v\<rfloor> else \<lceil>v\<rceil>))"

text \<open>The float literals \<^verbatim>\<open>0.5\<close> and \<^verbatim>\<open>0.15\<close>: the doubles nearest to the decimals.\<close>

definition lit_0_5 :: rat where
  "lit_0_5 = round_nearest (5 / 10)"

definition lit_0_15 :: rat where
  "lit_0_15 = round_nearest (15 / 100)"

subsection \<open>\<^verbatim>\<open>range\<close>, \<^verbatim>\<open>os.path\<close>, \<^verbatim>\<open>str\<close>\<close>

text \<open>
  \<^verbatim>\<open>range(start, stop, step)\<close> as the list of its elements. The script's only call
  has step \<open>-3\<close>; a zero step, on which Python raises, does not occur and gives \<open>[]\<close> here.
\<close>

function py_range :: "int \<Rightarrow> int \<Rightarrow> int \<Rightarrow> int list" where
  "py_range start stop step =
     (if (0 < step \<and> start < stop) \<or> (step < 0 \<and> stop < start)
      then start # py_range (start + step) stop step
      else [])"
  by pat_completeness auto
termination
  by (relation "measure (\<lambda>(start, stop, step). nat (if 0 < step then stop - start else start - stop))")
     auto

declare py_range.simps [simp del]

text \<open>\<^verbatim>\<open>posixpath.join\<close>: one step of its loop, then the loop.\<close>

definition join_step :: "string \<Rightarrow> string \<Rightarrow> string" where
  "join_step path b =
     (if b \<noteq> [] \<and> hd b = CHR ''/'' then b
      else if path = [] \<or> last path = CHR ''/'' then path @ b
      else path @ ''/'' @ b)"

definition os_path_join :: "string \<Rightarrow> string list \<Rightarrow> string" where
  "os_path_join a ps = foldl join_step a ps"

text \<open>
  \<^verbatim>\<open>posixpath.dirname\<close>: everything up to the last slash, with trailing slashes
  stripped unless the head consists of slashes only.
\<close>

definition os_path_dirname :: "string \<Rightarrow> string" where
  "os_path_dirname p =
     (let head = rev (dropWhile (\<lambda>c. c \<noteq> CHR ''/'') (rev p))
      in if head \<noteq> [] \<and> head \<noteq> replicate (length head) (CHR ''/'')
         then rev (dropWhile (\<lambda>c. c = CHR ''/'') (rev head))
         else head)"

fun str_nat :: "nat \<Rightarrow> string" where
  "str_nat n =
     (if n < 10 then [char_of (48 + n)]
      else str_nat (n div 10) @ [char_of (48 + n mod 10)])"

declare str_nat.simps [simp del]

section \<open>The imaging library, as the script sees it\<close>

type_synonym point = "int \<times> int"
type_synonym rgba = "int \<times> int \<times> int \<times> int"
type_synonym bbox = "int \<times> int \<times> int \<times> int"

text \<open>
  A font object is what \<^verbatim>\<open>ImageFont.truetype(path, size)\<close> or
  \<^verbatim>\<open>ImageFont.load_default()\<close> returns.
\<close>

datatype font = FreeTypeFont string int | DefaultFont

text \<open>
  The drawing calls of the script, with the arguments it passes:
  \<^verbatim>\<open>rounded_rectangle(xy, radius, fill, outline, width)\<close>, \<^verbatim>\<open>ellipse(xy, fill)\<close>,
  \<^verbatim>\<open>line(xy, fill, width)\<close> and \<^verbatim>\<open>text(xy, text, fill, font)\<close>.
\<close>

datatype draw_op =
    RoundedRectangle "point \<times> point" int "rgba option" "rgba option" int
  | Ellipse "point \<times> point" rgba
  | Line "point list" rgba int
  | Text point string rgba font

text \<open>
  The canvas: mode, size and initial colour as given to \<^verbatim>\<open>Image.new\<close>, and the drawing
  calls made on it so far, oldest first. Drawing changes pixels only, never mode or size.
\<close>

record image =
  mode :: string
  size :: "int \<times> int"
  color :: rgba
  ops :: "draw_op list"

definition Image_new :: "string \<Rightarrow> int \<times> int \<Rightarrow> rgba \<Rightarrow> image" where
  "Image_new m sz c = \<lparr>mode = m, size = sz, color = c, ops = []\<rparr>"

definition draw :: "draw_op list \<Rightarrow> image \<Rightarrow> image" where
  "draw new img = img\<lparr>ops := ops img @ new\<rparr>"

section \<open>The host\<close>

text \<open>
  What is stored under a path: a complete encoding of an image in the named format, or
  the truncated bytes that an interrupted write leaves behind.
\<close>

datatype content = Encoded string image | Partial

record filesystem =
  dirs :: "string set"
  files :: "string \<rightharpoonup> content"

text \<open>
  The outcome of \<^verbatim>\<open>img.save(path, format)\<close>: the file is written, or the call raises.
  The library opens the destination for writing, which truncates a file that is already
  there, and then writes the encoding; the flag tells whether the failure came after the
  destination had been opened.
\<close>

datatype save_result = Saved | SaveFailed exn bool

text \<open>
  The environment of one run: the value of \<^verbatim>\<open>__file__\<close>, the font loader, the glyph
  metrics of each font (the box of a text drawn at the origin, as
  \<^verbatim>\<open>font.getbbox\<close> gives it), and the outcome of the two filesystem calls.
\<close>

record host =
  script_file :: string
  truetype :: "string \<Rightarrow> int \<Rightarrow> exn + font"
  getbbox :: "font \<Rightarrow> string \<Rightarrow> bbox"
  makedirs_raises :: "string \<Rightarrow> exn option"
  save_outcome :: "string \<Rightarrow> save_result"

text \<open>\<^verbatim>\<open>draw.textbbox(xy, text, font)\<close>: the font's box for the text, moved to \<open>xy\<close>.\<close>

definition textbbox :: "host \<Rightarrow> point \<Rightarrow> string \<Rightarrow> font \<Rightarrow> bbox" where
  "textbbox h xy s f =
     (case (xy, getbbox h f s) of
        ((x, y), (l, t, r, b)) \<Rightarrow> (l + x, t + y, r + x, b + y))"

text \<open>
  \<^verbatim>\<open>os.makedirs(path, exist_ok=True)\<close> and \<^verbatim>\<open>img.save(path, format)\<close>. A save
  that fails after opening the destination leaves a file that was there before truncated;
  a file that the call created itself is removed again by the library.
\<close>

definition os_makedirs :: "host \<Rightarrow> string \<Rightarrow> filesystem \<Rightarrow> exn + filesystem" where
  "os_makedirs h p fs =
     (case makedirs_raises h p of
        Some e \<Rightarrow> Inl e
      | None \<Rightarrow> Inr (fs\<lparr>dirs := insert p (dirs fs)\<rparr>))"

definition Image_save :: "host \<Rightarrow> image \<Rightarrow> string \<Rightarrow> string \<Rightarrow> filesystem \<Rightarrow> exn option \<times> filesystem" where
  "Image_save h img p fmt fs =
     (case save_outcome h p of
        Saved \<Rightarrow> (None, fs\<lparr>files := (files fs)(p \<mapsto> Encoded fmt img)\<rparr>)
      | SaveFailed e opened \<Rightarrow>
          (Some e,
           if opened \<and> files fs p \<noteq> None then fs\<lparr>files := (files fs)(p \<mapsto> Partial)\<rparr>
           else fs))"

section \<open>The script\<close>

definition SIZE :: int where
  "SIZE = 1024"

definition OUT :: "host \<Rightarrow> string" where
  "OUT h = os_path_join (os_path_dirname (script_file h)) [''..'', ''assets'', ''icon.png'']"

definition bg_color :: rgba where
  "bg_color = (22, 22, 42, 255)"

definition accent :: rgba where
  "accent = (99, 102, 241, 255)"

definition accent_light :: rgba where
  "accent_light = (165, 180, 252, 255)"

definition radius :: int where
  "radius = 200"

definition background :: "draw_op list" where
  "background =
     [RoundedRectangle ((40, 40), (SIZE - 40, SIZE - 40)) radius (Some bg_color) None 1,
      RoundedRectangle ((44, 44), (SIZE - 44, SIZE - 44)) (radius - 4) None
        (Some (255, 255, 255, 20)) 2]"

definition dots :: "(int \<times> int \<times> int) list" where
  "dots = [(300, 680, 70), (512, 512, 55), (700, 360, 40)]"

text \<open>Line 46: \<^verbatim>\<open>alpha = int(40 * (1 - (glow_r - r) / 30))\<close>.\<close>

definition glow_alpha :: "int \<Rightarrow> int \<Rightarrow> exn + int" where
  "glow_alpha r glow_r =
     (case int_truediv (glow_r - r) 30 of
        Inl e \<Rightarrow> Inl e
      | Inr q \<Rightarrow>
          (case float_sub 1 q of
             None \<Rightarrow> Inl OverflowError
           | Some d \<Rightarrow> py_int (float_mul 40 d)))"

definition glow_radii :: "int \<Rightarrow> int list" where
  "glow_radii r = py_range (r + 30) r (- 3)"

definition glow_circle :: "int \<Rightarrow> int \<Rightarrow> int \<Rightarrow> int \<Rightarrow> exn + draw_op" where
  "glow_circle x y r glow_r =
     (case glow_alpha r glow_r of
        Inl e \<Rightarrow> Inl e
      | Inr alpha \<Rightarrow>
          Inr (Ellipse ((x - glow_r, y - glow_r), (x + glow_r, y + glow_r)) (99, 102, 241, alpha)))"

text \<open>A loop whose body may raise: the results in order, or the first exception.\<close>

fun for_each :: "('a \<Rightarrow> exn + 'b) \<Rightarrow> 'a list \<Rightarrow> exn + 'b list" where
  "for_each f [] = Inr []"
| "for_each f (a # as) =
     (case f a of
        Inl e \<Rightarrow> Inl e
      | Inr b \<Rightarrow> (case for_each f as of Inl e \<Rightarrow> Inl e | Inr bs \<Rightarrow> Inr (b # bs)))"

definition glow :: "int \<times> int \<times> int \<Rightarrow> exn + draw_op list" where
  "glow d = (case d of (x, y, r) \<Rightarrow> for_each (glow_circle x y r) (glow_radii r))"

definition solid_dot :: "int \<times> int \<times> int \<Rightarrow> draw_op" where
  "solid_dot d = (case d of (x, y, r) \<Rightarrow> Ellipse ((x - r, y - r), (x + r, y + r)) accent)"

text \<open>
  Lines 57 to 60: \<^verbatim>\<open>highlight_r = int(r * 0.5)\<close> and the upward shift
  \<^verbatim>\<open>int(r * 0.15)\<close>, in this order.
\<close>

definition scaled :: "int \<Rightarrow> rat \<Rightarrow> exn + int" where
  "scaled r c = (case float_of_int r of Inl e \<Rightarrow> Inl e | Inr f \<Rightarrow> py_int (float_mul f c))"

definition highlight_metrics :: "int \<Rightarrow> exn + int \<times> int" where
  "highlight_metrics r =
     (case scaled r lit_0_5 of
        Inl e \<Rightarrow> Inl e
      | Inr highlight_r \<Rightarrow>
          (case scaled r lit_0_15 of Inl e \<Rightarrow> Inl e | Inr shift \<Rightarrow> Inr (highlight_r, shift)))"

definition inner_highlight :: "int \<times> int \<times> int \<Rightarrow> exn + draw_op" where
  "inner_highlight d =
     (case d of (x, y, r) \<Rightarrow>
        (case highlight_metrics r of
           Inl e \<Rightarrow> Inl e
         | Inr (highlight_r, shift) \<Rightarrow>
             Inr (Ellipse ((x - highlight_r, y - highlight_r - shift),
                           (x + highlight_r, y + highlight_r - shift)) accent_light)))"

text \<open>The body of the loop over the dots, lines 43 to 62.\<close>

definition draw_dot :: "int \<times> int \<times> int \<Rightarrow> exn + draw_op list" where
  "draw_dot d =
     (case glow d of
        Inl e \<Rightarrow> Inl e
      | Inr g \<Rightarrow>
          (case inner_highlight d of
             Inl e \<Rightarrow> Inl e
           | Inr hl \<Rightarrow> Inr (g @ [solid_dot d, hl])))"

definition draw_dots :: "exn + draw_op list" where
  "draw_dots = (case for_each draw_dot dots of Inl e \<Rightarrow> Inl e | Inr xs \<Rightarrow> Inr (concat xs))"

definition line_color :: rgba where
  "line_color = (99, 102, 241, 100)"

definition trail :: "draw_op list" where
  "trail =
     [Line [(300, 680), (512, 512)] line_color 8,
      Line [(512, 512), (700, 360)] line_color 6]"

definition chevron_color :: rgba where
  "chevron_color = (99, 102, 241, 60)"

definition chevron :: "int \<Rightarrow> draw_op" where
  "chevron offset =
     (let cx = 770 + offset; cy = 305 - offset div 2
      in Line [(cx, cy - 15), (cx + 15, cy), (cx, cy + 15)] chevron_color 4)"

definition chevrons :: "draw_op list" where
  "chevrons = map chevron [0, 35]"

text \<open>Lines 77 to 83: the nested \<^verbatim>\<open>try\<close> statements around the font loader.\<close>

definition resolve_font :: "host \<Rightarrow> exn + font" where
  "resolve_font h =
     (case truetype h ''/System/Library/Fonts/SFCompact.ttf'' 220 of
        Inr f \<Rightarrow> Inr f
      | Inl e \<Rightarrow>
          if caught_by_handler e then
            (case truetype h ''/System/Library/Fonts/Helvetica.ttc'' 220 of
               Inr f \<Rightarrow> Inr f
             | Inl e' \<Rightarrow> if caught_by_handler e' then Inr DefaultFont else Inl e')
          else Inl e)"

definition b_color :: rgba where
  "b_color = (255, 255, 255, 35)"

text \<open>Lines 87 to 94: measuring the glyph and drawing it.\<close>

definition text_origin :: "bbox \<Rightarrow> point" where
  "text_origin bb =
     (case bb of (l, t, r, b) \<Rightarrow>
        (let bw = r - l; bh = b - t in (SIZE - bw - 160, SIZE - bh - 140)))"

definition letter :: "host \<Rightarrow> font \<Rightarrow> draw_op" where
  "letter h f = Text (text_origin (textbbox h (0, 0) ''B'' f)) ''B'' b_color f"

text \<open>Lines 10 to 94: everything drawn on the canvas, before any filesystem call.\<close>

definition compose :: "host \<Rightarrow> exn + image" where
  "compose h =
     (let img = draw background (Image_new ''RGBA'' (SIZE, SIZE) (0, 0, 0, 0))
      in case draw_dots of
           Inl e \<Rightarrow> Inl e
         | Inr ds \<Rightarrow>
             (let img = draw chevrons (draw trail (draw ds img))
              in case resolve_font h of
                   Inl e \<Rightarrow> Inl e
                 | Inr f \<Rightarrow> Inr (draw [letter h f] img)))"

definition message :: "host \<Rightarrow> string" where
  "message h =
     ''Icon saved to '' @ OUT h @ '' ('' @ str_nat (nat SIZE) @ ''x'' @ str_nat (nat SIZE) @ '')''"

text \<open>
  The whole script: the printed line or the exception that ends the run, and the
  filesystem the run leaves.
\<close>

definition run :: "host \<Rightarrow> filesystem \<Rightarrow> (exn + string) \<times> filesystem" where
  "run h fs =
     (case compose h of
        Inl e \<Rightarrow> (Inl e, fs)
      | Inr img \<Rightarrow>
          (case os_makedirs h (os_path_dirname (OUT h)) fs of
             Inl e \<Rightarrow> (Inl e, fs)
           | Inr fs1 \<Rightarrow>
               (case Image_save h img (OUT h) ''PNG'' fs1 of
                  (Some e, fs2) \<Rightarrow> (Inl e, fs2)
                | (None, fs2) \<Rightarrow> (Inr (message h), fs2))))"

section \<open>Notions used to state the properties\<close>

text \<open>The closed disc with an integer centre and radius, and the box that encloses it.\<close>

definition disc :: "point \<Rightarrow> int \<Rightarrow> (real \<times> real) set" where
  "disc c \<rho> =
     {p. (fst p - of_int (fst c))\<^sup>2 + (snd p - of_int (snd c))\<^sup>2 \<le> (of_int \<rho>)\<^sup>2}"

definition bounding_box :: "point \<Rightarrow> int \<Rightarrow> point \<times> point" where
  "bounding_box c \<rho> = ((fst c - \<rho>, snd c - \<rho>), (fst c + \<rho>, snd c + \<rho>))"

definition ellipse_filled :: "rgba \<Rightarrow> draw_op \<Rightarrow> bool" where
  "ellipse_filled c op = (case op of Ellipse bb c' \<Rightarrow> c' = c | _ \<Rightarrow> False)"

subsection \<open>Some hosts\<close>

definition empty_fs :: filesystem where
  "empty_fs = \<lparr>dirs = {}, files = Map.empty\<rparr>"


text \<open>No candidate font file exists; the default font measures \<open>B\<close> as a 6 by 11 box.\<close>

definition host_no_fonts :: host where
  "host_no_fonts =
     \<lparr>script_file = ''/repo/desktop/scripts/generate-icon.py'',
      truetype = (\<lambda>p s. Inl OSError),
      getbbox = (\<lambda>f s. (0, 0, 6, 11)),
      makedirs_raises = (\<lambda>p. None),
      save_outcome = (\<lambda>p. Saved)\<rparr>"


text \<open>
  The first candidate loads; as for any scalable font, the box of \<open>B\<close> drawn at the
  origin starts right of and below the origin.
\<close>

definition host_with_font :: host where
  "host_with_font =
     host_no_fonts\<lparr>truetype := (\<lambda>p s. Inr (FreeTypeFont p s)),
                    getbbox := (\<lambda>f s. (17, 46, 140, 204))\<rparr>"


section \<open>Properties of the float operations\<close>

lemma pow2_powi: "pow2 e = 2 powi e"
  by (simp add: pow2_def power_int_def field_simps)

lemma pow2_pos: "0 < pow2 e"
  by (simp add: pow2_powi)

lemma pow2_mono: "a \<le> b \<Longrightarrow> pow2 a \<le> pow2 b"
  by (simp add: pow2_powi power_int_increasing)

lemma pow2_diff: "pow2 (a - b) = pow2 a / pow2 b"
  by (simp add: pow2_powi power_int_diff)

lemma binade_le:
  assumes "0 < a"
  shows "pow2 (binade a) \<le> a"
proof (cases "1 \<le> a")
  case True
  then have pos: "0 < \<lfloor>a\<rfloor>" by linarith
  then have b1: "1 \<le> bitlen \<lfloor>a\<rfloor>"
    using bitlen_eq_zero_iff [of "\<lfloor>a\<rfloor>"] bitlen_nonneg [of "\<lfloor>a\<rfloor>"] by linarith
  have "(2::int) ^ nat (bitlen \<lfloor>a\<rfloor> - 1) \<le> \<lfloor>a\<rfloor>"
    using bitlen_bounds [OF pos] by simp
  then have "(of_int ((2::int) ^ nat (bitlen \<lfloor>a\<rfloor> - 1)) :: rat) \<le> of_int \<lfloor>a\<rfloor>"
    by (simp only: of_int_le_iff)
  also have "\<dots> \<le> a" by simp
  finally show ?thesis
    using True b1 by (simp add: binade_def pow2_def)
next
  case False
  define m where "m = \<lceil>1 / a\<rceil> - 1"
  from False assms have "1 < 1 / a" by (simp add: field_simps)
  then have "1 < \<lceil>1 / a\<rceil>" by linarith
  then have pos: "0 < m" by (simp add: m_def)
  then have b1: "1 \<le> bitlen m"
    using bitlen_eq_zero_iff [of m] bitlen_nonneg [of m] by linarith
  have "m < 2 ^ nat (bitlen m)"
    using bitlen_bounds [OF pos] by simp
  then have "\<lceil>1 / a\<rceil> \<le> 2 ^ nat (bitlen m)" by (simp add: m_def)
  then have "(of_int \<lceil>1 / a\<rceil> :: rat) \<le> of_int (2 ^ nat (bitlen m))"
    by (simp only: of_int_le_iff)
  then have "(of_int \<lceil>1 / a\<rceil> :: rat) \<le> 2 ^ nat (bitlen m)"
    by simp
  then have "1 / a \<le> 2 ^ nat (bitlen m)"
    using le_of_int_ceiling [of "1 / a"] by (rule order_trans [rotated])
  then have "1 / 2 ^ nat (bitlen m) \<le> a"
    using assms by (simp add: field_simps)
  then show ?thesis
    using False b1 by (simp add: binade_def pow2_def m_def)
qed

lemma binade_less:
  assumes "0 < a"
  shows "a < pow2 (binade a + 1)"
proof (cases "1 \<le> a")
  case True
  then have pos: "0 < \<lfloor>a\<rfloor>" by linarith
  then have b1: "1 \<le> bitlen \<lfloor>a\<rfloor>"
    using bitlen_eq_zero_iff [of "\<lfloor>a\<rfloor>"] bitlen_nonneg [of "\<lfloor>a\<rfloor>"] by linarith
  have "\<lfloor>a\<rfloor> + 1 \<le> 2 ^ nat (bitlen \<lfloor>a\<rfloor>)"
    using bitlen_bounds [OF pos] by simp
  then have "(of_int (\<lfloor>a\<rfloor> + 1) :: rat) \<le> of_int (2 ^ nat (bitlen \<lfloor>a\<rfloor>))"
    by (simp only: of_int_le_iff)
  moreover have "a < of_int (\<lfloor>a\<rfloor> + 1)" by linarith
  ultimately have "a < 2 ^ nat (bitlen \<lfloor>a\<rfloor>)" by simp
  then show ?thesis
    using True b1 by (simp add: binade_def pow2_def)
next
  case False
  define m where "m = \<lceil>1 / a\<rceil> - 1"
  from False assms have "1 < 1 / a" by (simp add: field_simps)
  then have "1 < \<lceil>1 / a\<rceil>" by linarith
  then have pos: "0 < m" by (simp add: m_def)
  then have b1: "1 \<le> bitlen m"
    using bitlen_eq_zero_iff [of m] bitlen_nonneg [of m] by linarith
  have "2 ^ nat (bitlen m - 1) \<le> m"
    using bitlen_bounds [OF pos] by simp
  then have "(of_int (2 ^ nat (bitlen m - 1)) :: rat) \<le> of_int m"
    by (simp only: of_int_le_iff)
  then have "(2 ^ nat (bitlen m - 1) :: rat) \<le> of_int m"
    by (simp only: of_int_power of_int_numeral)
  moreover have "of_int m < 1 / a" unfolding m_def by linarith
  ultimately have "2 ^ nat (bitlen m - 1) < 1 / a" by (rule le_less_trans)
  then have "a < 1 / 2 ^ nat (bitlen m - 1)"
    using assms by (simp add: field_simps)
  moreover have "pow2 (- bitlen m + 1) = 1 / 2 ^ nat (bitlen m - 1)"
    using b1 by (auto simp: pow2_def)
  ultimately show ?thesis
    using False by (simp add: binade_def m_def)
qed

lemma round_half_even_le: "of_int (round_half_even q) \<le> q + 1 / 2"
  by (auto simp: round_half_even_def Let_def; linarith)

lemma round_half_even_nonneg: "0 \<le> q \<Longrightarrow> 0 \<le> round_half_even q"
  by (auto simp: round_half_even_def Let_def)

lemma round_nearest_nonneg: "0 \<le> x \<Longrightarrow> 0 \<le> round_nearest x"
proof (cases "x = 0")
  case True
  then show ?thesis by (simp add: round_nearest_def)
next
  case False
  assume "0 \<le> x"
  with False have x: "0 < x" by simp
  define s where "s = max (binade x - 52) (- 1074)"
  have "0 \<le> x / pow2 s"
    using x pow2_pos [of s] by simp
  then have "0 \<le> round_half_even (x / pow2 s)"
    by (rule round_half_even_nonneg)
  then have "0 \<le> (of_int (round_half_even (x / pow2 s)) :: rat) * pow2 s"
    using pow2_pos [of s] by simp
  then show ?thesis
    using x by (simp add: round_nearest_def Let_def s_def)
qed

lemma round_nearest_upper:
  assumes "0 \<le> x"
  shows "round_nearest x \<le> x + x / 100 + 1 / 32"
proof (cases "x = 0")
  case True
  then show ?thesis by (simp add: round_nearest_def)
next
  case False
  with assms have x: "0 < x" by simp
  define s where "s = max (binade x - 52) (- 1074)"
  define n where "n = round_half_even (x / pow2 s)"
  have rn: "round_nearest x = of_int n * pow2 s"
    using x by (simp add: round_nearest_def Let_def s_def n_def)
  have "of_int n \<le> x / pow2 s + 1 / 2"
    unfolding n_def by (rule round_half_even_le)
  then have "of_int n * pow2 s \<le> (x / pow2 s + 1 / 2) * pow2 s"
    using pow2_pos [of s] by (simp only: mult_le_cancel_right_pos)
  also have "\<dots> = x + pow2 s / 2"
    using pow2_pos [of s] by (simp add: field_simps)
  finally have step: "round_nearest x \<le> x + pow2 s / 2"
    by (simp add: rn)
  have "pow2 s \<le> x / 50 + 1 / 16"
  proof (cases "- 1074 \<le> binade x - 52")
    case True
    then have "pow2 s = pow2 (binade x) / pow2 52"
      by (simp add: s_def pow2_diff)
    also have "\<dots> \<le> x / pow2 52"
      using binade_le [OF x] pow2_pos [of 52] by (simp add: divide_right_mono)
    also have "\<dots> \<le> x / 50"
      using x by (simp add: pow2_def field_simps)
    finally show ?thesis using x by simp
  next
    case False
    then have "pow2 s = pow2 (- 1074)" by (simp add: s_def)
    also have "\<dots> \<le> pow2 (- 4)" by (rule pow2_mono) simp
    also have "\<dots> = 1 / 16" by (simp add: pow2_def)
    finally show ?thesis using x by simp
  qed
  with step show ?thesis by simp
qed

lemma round_double_Some: "round_double x = Some y \<Longrightarrow> y = round_nearest x"
  by (simp add: round_double_def Let_def split: if_splits)

lemma scaled_Inr:
  assumes "0 \<le> r" and "0 \<le> c" and "scaled r c = Inr v"
  shows "0 \<le> v \<and> of_int v \<le> round_nearest (round_nearest (of_int r) * c)"
proof -
  from assms(3) obtain f where f: "float_of_int r = Inr f"
    by (auto simp: scaled_def split: sum.splits)
  then have fr: "f = round_nearest (of_int r)"
    by (auto simp: float_of_int_def split: option.splits dest: round_double_Some)
  from assms(3) f obtain w where w: "float_mul f c = Some w" and v: "v = (if 0 \<le> w then \<lfloor>w\<rfloor> else \<lceil>w\<rceil>)"
    by (auto simp: scaled_def py_int_def split: option.splits)
  from w have wr: "w = round_nearest (f * c)"
    by (auto simp: float_mul_def dest: round_double_Some)
  have "0 \<le> f"
    using assms(1) unfolding fr by (intro round_nearest_nonneg) simp
  then have "0 \<le> f * c" using assms(2) by simp
  then have "0 \<le> w" unfolding wr by (rule round_nearest_nonneg)
  with v have "v = \<lfloor>w\<rfloor>" by simp
  with \<open>0 \<le> w\<close> show ?thesis
    by (simp add: wr fr)
qed

lemma lit_0_5_eq: "lit_0_5 = 1 / 2"
  by code_simp

lemma lit_0_15_eq: "lit_0_15 = 5404319552844595 / 36028797018963968"
  by code_simp

lemma highlight_metrics_sum:
  assumes "0 \<le> r" and "highlight_metrics r = Inr (hr, sh)"
  shows "0 \<le> hr \<and> 0 \<le> sh \<and> hr + sh \<le> r"
proof -
  define F where "F = round_nearest (of_int r)"
  define c where "c = lit_0_15"
  have c: "0 \<le> c" "c \<le> 3 / 20"
    by (simp_all add: c_def lit_0_15_eq)
  from assms(2) have s1: "scaled r (1 / 2) = Inr hr" and s2: "scaled r c = Inr sh"
    by (auto simp: highlight_metrics_def lit_0_5_eq c_def split: sum.splits)
  have r0: "(0::rat) \<le> of_int r" using assms(1) by simp
  have F0: "0 \<le> F" unfolding F_def using r0 by (rule round_nearest_nonneg)
  have F1: "F \<le> of_int r + of_int r / 100 + 1 / 32"
    unfolding F_def using r0 by (rule round_nearest_upper)
  have h: "0 \<le> hr" "of_int hr \<le> round_nearest (F * (1 / 2))"
    using scaled_Inr [OF assms(1) _ s1] by (simp_all add: F_def)
  have s: "0 \<le> sh" "of_int sh \<le> round_nearest (F * c)"
    using scaled_Inr [OF assms(1) c(1) s2] by (simp_all add: F_def)
  have "round_nearest (F * (1 / 2)) \<le> F * (1 / 2) + F * (1 / 2) / 100 + 1 / 32"
    using F0 by (intro round_nearest_upper) simp
  with h(2) have b1: "of_int hr \<le> F * (1 / 2) + F * (1 / 2) / 100 + 1 / 32"
    by simp
  have Fc0: "0 \<le> F * c" using F0 c(1) by simp
  have Fc1: "F * c \<le> F * (3 / 20)" using F0 c(2) by (rule mult_left_mono [rotated])
  have "round_nearest (F * c) \<le> F * c + F * c / 100 + 1 / 32"
    using Fc0 by (rule round_nearest_upper)
  with s(2) have b2: "of_int sh \<le> F * c + F * c / 100 + 1 / 32"
    by simp
  have "(of_int (hr + sh) :: rat) < of_int r + 1"
    using b1 b2 Fc1 F1 r0 by simp
  then have "hr + sh < r + 1"
    by (metis of_int_1 of_int_add of_int_less_iff)
  with h(1) s(1) show ?thesis by simp
qed

section \<open>Evaluating the loops of the script\<close>

lemma py_range_down_step:
  "0 < k \<Longrightarrow> py_range (r + k) r (- 3) = (r + k) # py_range (r + (k - 3)) r (- 3)"
  by (subst py_range.simps) (simp add: algebra_simps)

lemma py_range_down_stop: "py_range r r (- 3) = []"
  by (subst py_range.simps) simp

lemma glow_radii_eq:
  "glow_radii r = [r + 30, r + 27, r + 24, r + 21, r + 18, r + 15, r + 12, r + 9, r + 6, r + 3]"
  unfolding glow_radii_def
  by (simp add: py_range_down_step py_range_down_stop)

lemma glow_alpha_30: "glow_alpha r (r + 30) = Inr 0"
  by (simp only: glow_alpha_def add_diff_cancel_left') code_simp

lemma glow_alpha_27: "glow_alpha r (r + 27) = Inr 3"
  by (simp only: glow_alpha_def add_diff_cancel_left') code_simp

lemma glow_alpha_24: "glow_alpha r (r + 24) = Inr 7"
  by (simp only: glow_alpha_def add_diff_cancel_left') code_simp

lemma glow_alpha_21: "glow_alpha r (r + 21) = Inr 12"
  by (simp only: glow_alpha_def add_diff_cancel_left') code_simp

lemma glow_alpha_18: "glow_alpha r (r + 18) = Inr 16"
  by (simp only: glow_alpha_def add_diff_cancel_left') code_simp

lemma glow_alpha_15: "glow_alpha r (r + 15) = Inr 20"
  by (simp only: glow_alpha_def add_diff_cancel_left') code_simp

lemma glow_alpha_12: "glow_alpha r (r + 12) = Inr 24"
  by (simp only: glow_alpha_def add_diff_cancel_left') code_simp

lemma glow_alpha_9: "glow_alpha r (r + 9) = Inr 28"
  by (simp only: glow_alpha_def add_diff_cancel_left') code_simp

lemma glow_alpha_6: "glow_alpha r (r + 6) = Inr 32"
  by (simp only: glow_alpha_def add_diff_cancel_left') code_simp

lemma glow_alpha_3: "glow_alpha r (r + 3) = Inr 36"
  by (simp only: glow_alpha_def add_diff_cancel_left') code_simp

lemmas glow_alpha_values =
  glow_alpha_30 glow_alpha_27 glow_alpha_24 glow_alpha_21 glow_alpha_18
  glow_alpha_15 glow_alpha_12 glow_alpha_9 glow_alpha_6 glow_alpha_3

lemma glow_alphas:
  "map (glow_alpha r) (glow_radii r) = map Inr [0, 3, 7, 12, 16, 20, 24, 28, 32, 36]"
  by (simp add: glow_radii_eq glow_alpha_values)

lemma highlight_metrics_70: "highlight_metrics 70 = Inr (35, 10)"
  by code_simp

lemma highlight_metrics_55: "highlight_metrics 55 = Inr (27, 8)"
  by code_simp

lemma highlight_metrics_40: "highlight_metrics 40 = Inr (20, 6)"
  by code_simp

lemma glow_eq:
  "glow (x, y, r) =
     Inr [Ellipse ((x - (r + 30), y - (r + 30)), (x + (r + 30), y + (r + 30))) (99, 102, 241, 0),
          Ellipse ((x - (r + 27), y - (r + 27)), (x + (r + 27), y + (r + 27))) (99, 102, 241, 3),
          Ellipse ((x - (r + 24), y - (r + 24)), (x + (r + 24), y + (r + 24))) (99, 102, 241, 7),
          Ellipse ((x - (r + 21), y - (r + 21)), (x + (r + 21), y + (r + 21))) (99, 102, 241, 12),
          Ellipse ((x - (r + 18), y - (r + 18)), (x + (r + 18), y + (r + 18))) (99, 102, 241, 16),
          Ellipse ((x - (r + 15), y - (r + 15)), (x + (r + 15), y + (r + 15))) (99, 102, 241, 20),
          Ellipse ((x - (r + 12), y - (r + 12)), (x + (r + 12), y + (r + 12))) (99, 102, 241, 24),
          Ellipse ((x - (r + 9), y - (r + 9)), (x + (r + 9), y + (r + 9))) (99, 102, 241, 28),
          Ellipse ((x - (r + 6), y - (r + 6)), (x + (r + 6), y + (r + 6))) (99, 102, 241, 32),
          Ellipse ((x - (r + 3), y - (r + 3)), (x + (r + 3), y + (r + 3))) (99, 102, 241, 36)]"
  by (simp add: glow_def glow_radii_eq glow_circle_def glow_alpha_values)

section \<open>The glow\<close>

text \<open>
  C3. For every dot of the list and any two radii \<open>g1 < g2\<close> of its glow loop, the alpha
  computed at \<open>g2\<close> is at most the alpha computed at \<open>g1\<close>: the alpha does not
  increase as the glow radius grows away from the core. Every alpha of the loop is
  computed without an exception and lies between 0 and 40.
\<close>

theorem glow_alpha_monotone:
  assumes "(x, y, r) \<in> set dots"
    and "g1 \<in> set (glow_radii r)" and "g2 \<in> set (glow_radii r)" and "g1 < g2"
  shows "\<exists>a1 a2. glow_alpha r g1 = Inr a1 \<and> glow_alpha r g2 = Inr a2 \<and>
           a2 \<le> a1 \<and> 0 \<le> a2 \<and> a1 \<le> 40"
  using assms(2-4) unfolding glow_radii_eq
  by (auto simp: glow_alpha_values)

text \<open>The dot at (300, 680) with the radii 73 and 100 of its glow loop.\<close>

theorem glow_alpha_monotone_witness:
  "(300, 680, 70) \<in> set dots \<and> 73 \<in> set (glow_radii 70) \<and> 100 \<in> set (glow_radii 70) \<and>
   (73::int) < 100 \<and>
   (\<exists>a1 a2. glow_alpha 70 73 = Inr a1 \<and> glow_alpha 70 100 = Inr a2 \<and>
      a2 \<le> a1 \<and> 0 \<le> a2 \<and> a1 \<le> 40)"
proof -
  have d: "(300, 680, 70) \<in> set dots" by (simp add: dots_def)
  have g1: "73 \<in> set (glow_radii 70)" by (simp add: glow_radii_eq)
  have g2: "100 \<in> set (glow_radii 70)" by (simp add: glow_radii_eq)
  have lt: "(73::int) < 100" by simp
  show ?thesis
    using d g1 g2 lt glow_alpha_monotone [OF d g1 g2 lt] by blast
qed

text \<open>
  C4, as stated, has the alpha fall from about 40 to 0 while the circles shrink towards
  the core. For the dot of radius 70 the first and largest circle, of radius 100, has
  alpha 0, and the last and smallest, of radius 73, has alpha 36.
\<close>

theorem glow_alpha_outermost_zero_innermost_36:
  "glow_alpha 70 (70 + 30) = Inr 0 \<and> glow_alpha 70 (70 + 3) = Inr 36"
  by (simp only: glow_alpha_30 glow_alpha_3)

text \<open>
  C4, amended. For every dot \<open>(x, y, r)\<close> the glow is ten circles centred at \<open>(x, y)\<close>,
  drawn in this order with the radii \<open>r + 30, r + 27, ..., r + 3\<close> and the alphas
  0, 3, 7, 12, 16, 20, 24, 28, 32, 36: the alpha rises from 0 at the outermost circle to
  36 at the circle next to the core.
\<close>

theorem glow_circles:
  "glow (x, y, r) =
     Inr (map (\<lambda>(k, a). Ellipse (bounding_box (x, y) (r + k)) (99, 102, 241, a))
            [(30, 0), (27, 3), (24, 7), (21, 12), (18, 16),
             (15, 20), (12, 24), (9, 28), (6, 32), (3, 36)])"
  by (simp add: glow_eq bounding_box_def)

text \<open>
  C9, as stated, gives the alphas 0, 4, 8, ..., 36. For the dot of radius 70 the alphas of
  the loop are not that list: \<open>27 / 30\<close> rounds to a double above 0.9, so
  \<open>40 * (1 - 27 / 30)\<close> is a double below 4 and truncates to 3, and likewise 7 for 8.
\<close>

theorem glow_alphas_not_multiples_of_4:
  "map (glow_alpha 70) (glow_radii 70) \<noteq> map Inr [0, 4, 8, 12, 16, 20, 24, 28, 32, 36]"
  by (simp add: glow_alphas)

text \<open>
  C9, amended. For every dot \<open>(x, y, r)\<close> of the list, that is for \<open>r\<close> = 70, 55 or 40,
  the glow loop runs over the ten radii \<open>r + 30, r + 27, ..., r + 3\<close>, never over \<open>r\<close>
  itself, computes the alphas 0, 3, 7, 12, 16, 20, 24, 28, 32, 36, and draws one circle
  centred at \<open>(x, y)\<close> for each radius with its alpha, ten in all, before the core; the
  largest alpha is 36, below the nominal 40.
\<close>

theorem glow_loop_values:
  assumes "(x, y, r) \<in> set dots"
  shows "glow_radii r =
           [r + 30, r + 27, r + 24, r + 21, r + 18, r + 15, r + 12, r + 9, r + 6, r + 3] \<and>
         r \<notin> set (glow_radii r) \<and>
         map (glow_alpha r) (glow_radii r) = map Inr [0, 3, 7, 12, 16, 20, 24, 28, 32, 36] \<and>
         (\<exists>g hl. glow (x, y, r) = Inr g \<and> length g = 10 \<and>
            g = map2 (\<lambda>glow_r alpha.
                        Ellipse ((x - glow_r, y - glow_r), (x + glow_r, y + glow_r))
                          (99, 102, 241, alpha))
                  (glow_radii r) [0, 3, 7, 12, 16, 20, 24, 28, 32, 36] \<and>
            draw_dot (x, y, r) = Inr (g @ [solid_dot (x, y, r), hl])) \<and>
         Max (set [0, 3, 7, 12, 16, 20, 24, 28, 32, 36]) = (36::int) \<and> (36::int) < 40"
proof -
  have radii: "glow_radii r =
           [r + 30, r + 27, r + 24, r + 21, r + 18, r + 15, r + 12, r + 9, r + 6, r + 3]"
    by (rule glow_radii_eq)
  have notin: "r \<notin> set (glow_radii r)"
    by (simp add: glow_radii_eq)
  have g: "glow (x, y, r) =
      Inr (map2 (\<lambda>glow_r alpha.
                   Ellipse ((x - glow_r, y - glow_r), (x + glow_r, y + glow_r))
                     (99, 102, 241, alpha))
             (glow_radii r) [0, 3, 7, 12, 16, 20, 24, 28, 32, 36])"
    by (simp add: glow_eq glow_radii_eq)
  from assms have "r = 70 \<or> r = 55 \<or> r = 40"
    by (auto simp: dots_def)
  then obtain hl where hl: "inner_highlight (x, y, r) = Inr hl"
    by (auto simp: inner_highlight_def highlight_metrics_70 highlight_metrics_55
        highlight_metrics_40)
  have d: "draw_dot (x, y, r) =
      Inr (map2 (\<lambda>glow_r alpha.
                   Ellipse ((x - glow_r, y - glow_r), (x + glow_r, y + glow_r))
                     (99, 102, 241, alpha))
             (glow_radii r) [0, 3, 7, 12, 16, 20, 24, 28, 32, 36] @ [solid_dot (x, y, r), hl])"
    by (simp add: draw_dot_def g hl)
  have len: "length (map2 (\<lambda>glow_r alpha.
                   Ellipse ((x - glow_r, y - glow_r), (x + glow_r, y + glow_r))
                     (99, 102, 241, alpha))
             (glow_radii r) [0, 3, 7, 12, 16, 20, 24, 28, 32, (36::int)]) = 10"
    by (simp add: glow_radii_eq)
  from g len d have ex: "\<exists>g hl. glow (x, y, r) = Inr g \<and> length g = 10 \<and>
            g = map2 (\<lambda>glow_r alpha.
                        Ellipse ((x - glow_r, y - glow_r), (x + glow_r, y + glow_r))
                          (99, 102, 241, alpha))
                  (glow_radii r) [0, 3, 7, 12, 16, 20, 24, 28, 32, 36] \<and>
            draw_dot (x, y, r) = Inr (g @ [solid_dot (x, y, r), hl])"
    by blast
  have mx: "Max (set [0, 3, 7, 12, 16, 20, 24, 28, 32, 36]) = (36::int)" and lt: "(36::int) < 40"
    by simp_all
  from radii notin glow_alphas [of r] ex mx lt show ?thesis
    by (intro conjI)
qed

text \<open>The dot at (300, 680) of radius 70: the radii 100, 97, ..., 73.\<close>

theorem glow_loop_values_witness:
  "(300, 680, 70) \<in> set dots \<and>
   glow_radii 70 = [100, 97, 94, 91, 88, 85, 82, 79, 76, 73] \<and>
   map (glow_alpha 70) (glow_radii 70) = map Inr [0, 3, 7, 12, 16, 20, 24, 28, 32, 36] \<and>
   (\<exists>g. glow (300, 680, 70) = Inr g \<and> length g = 10)"
proof -
  have d: "(300, 680, 70) \<in> set dots" by (simp add: dots_def)
  note t = glow_loop_values [OF d]
  from t have r: "glow_radii 70 = [100, 97, 94, 91, 88, 85, 82, 79, 76, 73]"
    by simp
  from t have a: "map (glow_alpha 70) (glow_radii 70) =
      map Inr [0, 3, 7, 12, 16, 20, 24, 28, 32, 36]"
    by (rule conjunct2 [THEN conjunct2, THEN conjunct1])
  from t have "\<exists>g hl. glow (300, 680, 70) = Inr g \<and> length g = 10 \<and>
            g = map2 (\<lambda>glow_r alpha.
                        Ellipse ((300 - glow_r, 680 - glow_r), (300 + glow_r, 680 + glow_r))
                          (99, 102, 241, alpha))
                  (glow_radii 70) [0, 3, 7, 12, 16, 20, 24, 28, 32, 36] \<and>
            draw_dot (300, 680, 70) = Inr (g @ [solid_dot (300, 680, 70), hl])"
    by (rule conjunct2 [THEN conjunct2, THEN conjunct2, THEN conjunct1])
  then have g: "\<exists>g. glow (300, 680, 70) = Inr g \<and> length g = 10"
    by blast
  from d r a g show ?thesis
    by (intro conjI)
qed

section \<open>The inner highlight\<close>

lemma disc_subset:
  assumes "0 \<le> h" and "0 \<le> s" and "h + s \<le> r"
  shows "disc (x, y - s) h \<subseteq> disc (x, y) r"
proof
  fix p :: "real \<times> real"
  assume "p \<in> disc (x, y - s) h"
  define a where "a = fst p - of_int x"
  define b where "b = snd p - of_int (y - s)"
  define H :: real where "H = of_int h"
  define S :: real where "S = of_int s"
  define R :: real where "R = of_int r"
  have H0: "0 \<le> H" and S0: "0 \<le> S" and HS: "H + S \<le> R"
    using assms unfolding H_def S_def R_def by linarith+
  from \<open>p \<in> disc (x, y - s) h\<close> have in1: "a\<^sup>2 + b\<^sup>2 \<le> H\<^sup>2"
    by (simp add: disc_def a_def b_def H_def)
  have "b\<^sup>2 \<le> H\<^sup>2" using in1 by (smt (verit) zero_le_power2)
  then have "\<bar>b\<bar> \<le> H" using H0 by (metis abs_le_square_iff abs_of_nonneg)
  then have "- (b * S) \<le> H * S"
    using S0 by (smt (verit) mult_right_mono mult_minus_left)
  then have "a\<^sup>2 + (b - S)\<^sup>2 \<le> (H + S)\<^sup>2"
    using in1 by (simp add: power2_eq_square algebra_simps)
  also have "\<dots> \<le> R\<^sup>2"
    using H0 S0 HS by (intro power_mono) simp_all
  finally have "a\<^sup>2 + (b - S)\<^sup>2 \<le> R\<^sup>2" .
  moreover have "snd p - of_int y = b - S"
    by (simp add: b_def S_def)
  ultimately show "p \<in> disc (x, y) r"
    by (simp add: disc_def a_def R_def)
qed

text \<open>
  C10. For every dot \<open>(x, y, r)\<close> with \<open>0 \<le> r\<close> for which the highlight is drawn, the
  highlight is the circle of radius \<open>int(r * 0.5)\<close> centred \<open>int(r * 0.15)\<close> above
  \<open>(x, y)\<close>; the two numbers add up to at most \<open>r\<close>, so that circle lies inside the
  core circle of radius \<open>r\<close> centred at \<open>(x, y)\<close>.
\<close>

theorem highlight_inside_core:
  assumes "0 \<le> r" and "inner_highlight (x, y, r) = Inr hl"
  shows "\<exists>highlight_r shift.
           hl = Ellipse (bounding_box (x, y - shift) highlight_r) accent_light \<and>
           solid_dot (x, y, r) = Ellipse (bounding_box (x, y) r) accent \<and>
           0 \<le> highlight_r \<and> 0 \<le> shift \<and> highlight_r + shift \<le> r \<and>
           disc (x, y - shift) highlight_r \<subseteq> disc (x, y) r"
proof -
  from assms(2) obtain hr sh where m: "highlight_metrics r = Inr (hr, sh)"
    and hl: "hl = Ellipse ((x - hr, y - hr - sh), (x + hr, y + hr - sh)) accent_light"
    by (auto simp: inner_highlight_def split: sum.splits)
  from highlight_metrics_sum [OF assms(1) m]
  have b: "0 \<le> hr" "0 \<le> sh" "hr + sh \<le> r" by simp_all
  have "hl = Ellipse (bounding_box (x, y - sh) hr) accent_light"
    by (simp add: hl bounding_box_def algebra_simps)
  moreover have "solid_dot (x, y, r) = Ellipse (bounding_box (x, y) r) accent"
    by (simp add: solid_dot_def bounding_box_def)
  moreover have "disc (x, y - sh) hr \<subseteq> disc (x, y) r"
    using b by (rule disc_subset)
  ultimately show ?thesis using b by blast
qed

text \<open>The dot at (300, 680) of radius 70: highlight radius 35, shifted up by 10.\<close>

theorem highlight_inside_core_witness:
  "(0::int) \<le> 70 \<and>
   inner_highlight (300, 680, 70) = Inr (Ellipse ((265, 635), (335, 705)) accent_light) \<and>
   (\<exists>highlight_r shift.
      Ellipse ((265, 635), (335, 705)) accent_light =
        Ellipse (bounding_box (300, 680 - shift) highlight_r) accent_light \<and>
      solid_dot (300, 680, 70) = Ellipse (bounding_box (300, 680) 70) accent \<and>
      0 \<le> highlight_r \<and> 0 \<le> shift \<and> highlight_r + shift \<le> 70 \<and>
      disc (300, 680 - shift) highlight_r \<subseteq> disc (300, 680) 70)"
proof -
  have r: "(0::int) \<le> 70" by simp
  have e: "inner_highlight (300, 680, 70) = Inr (Ellipse ((265, 635), (335, 705)) accent_light)"
    by (simp add: inner_highlight_def highlight_metrics_70)
  show ?thesis
    using r e highlight_inside_core [OF r e] by blast
qed

section \<open>The composed image\<close>

lemma draw_dots_eq:
  "draw_dots = Inr
     [Ellipse ((200, 580), (400, 780)) (99, 102, 241, 0),
      Ellipse ((203, 583), (397, 777)) (99, 102, 241, 3),
      Ellipse ((206, 586), (394, 774)) (99, 102, 241, 7),
      Ellipse ((209, 589), (391, 771)) (99, 102, 241, 12),
      Ellipse ((212, 592), (388, 768)) (99, 102, 241, 16),
      Ellipse ((215, 595), (385, 765)) (99, 102, 241, 20),
      Ellipse ((218, 598), (382, 762)) (99, 102, 241, 24),
      Ellipse ((221, 601), (379, 759)) (99, 102, 241, 28),
      Ellipse ((224, 604), (376, 756)) (99, 102, 241, 32),
      Ellipse ((227, 607), (373, 753)) (99, 102, 241, 36),
      Ellipse ((230, 610), (370, 750)) (99, 102, 241, 255),
      Ellipse ((265, 635), (335, 705)) (165, 180, 252, 255),
      Ellipse ((427, 427), (597, 597)) (99, 102, 241, 0),
      Ellipse ((430, 430), (594, 594)) (99, 102, 241, 3),
      Ellipse ((433, 433), (591, 591)) (99, 102, 241, 7),
      Ellipse ((436, 436), (588, 588)) (99, 102, 241, 12),
      Ellipse ((439, 439), (585, 585)) (99, 102, 241, 16),
      Ellipse ((442, 442), (582, 582)) (99, 102, 241, 20),
      Ellipse ((445, 445), (579, 579)) (99, 102, 241, 24),
      Ellipse ((448, 448), (576, 576)) (99, 102, 241, 28),
      Ellipse ((451, 451), (573, 573)) (99, 102, 241, 32),
      Ellipse ((454, 454), (570, 570)) (99, 102, 241, 36),
      Ellipse ((457, 457), (567, 567)) (99, 102, 241, 255),
      Ellipse ((485, 477), (539, 531)) (165, 180, 252, 255),
      Ellipse ((630, 290), (770, 430)) (99, 102, 241, 0),
      Ellipse ((633, 293), (767, 427)) (99, 102, 241, 3),
      Ellipse ((636, 296), (764, 424)) (99, 102, 241, 7),
      Ellipse ((639, 299), (761, 421)) (99, 102, 241, 12),
      Ellipse ((642, 302), (758, 418)) (99, 102, 241, 16),
      Ellipse ((645, 305), (755, 415)) (99, 102, 241, 20),
      Ellipse ((648, 308), (752, 412)) (99, 102, 241, 24),
      Ellipse ((651, 311), (749, 409)) (99, 102, 241, 28),
      Ellipse ((654, 314), (746, 406)) (99, 102, 241, 32),
      Ellipse ((657, 317), (743, 403)) (99, 102, 241, 36),
      Ellipse ((660, 320), (740, 400)) (99, 102, 241, 255),
      Ellipse ((680, 334), (720, 374)) (165, 180, 252, 255)]"
  by (simp add: draw_dots_def dots_def draw_dot_def glow_eq inner_highlight_def solid_dot_def
      highlight_metrics_70 highlight_metrics_55 highlight_metrics_40 accent_def accent_light_def)

lemma compose_failed: "resolve_font h = Inl e \<Longrightarrow> compose h = Inl e"
  by (simp add: compose_def Let_def draw_dots_eq)

lemma compose_resolved:
  "resolve_font h = Inr f \<Longrightarrow>
     \<exists>ds. draw_dots = Inr ds \<and>
       compose h = Inr \<lparr>mode = ''RGBA'', size = (1024, 1024), color = (0, 0, 0, 0),
                        ops = background @ ds @ trail @ chevrons @ [letter h f]\<rparr>"
  by (simp add: compose_def Let_def draw_dots_eq draw_def Image_new_def SIZE_def)

lemma compose_cases:
  "(\<exists>e. resolve_font h = Inl e \<and> compose h = Inl e) \<or>
   (\<exists>f ds. resolve_font h = Inr f \<and> draw_dots = Inr ds \<and>
      compose h = Inr \<lparr>mode = ''RGBA'', size = (1024, 1024), color = (0, 0, 0, 0),
                       ops = background @ ds @ trail @ chevrons @ [letter h f]\<rparr>)"
  by (cases "resolve_font h") (auto dest: compose_failed compose_resolved)

section \<open>The output path\<close>

lemma os_path_dirname_file:
  assumes "d \<noteq> []" and "last d \<noteq> CHR ''/''" and "CHR ''/'' \<notin> set name"
  shows "os_path_dirname (d @ ''/'' @ name) = d"
proof -
  have "dropWhile (\<lambda>c. c \<noteq> CHR ''/'') (rev name @ CHR ''/'' # rev d) = CHR ''/'' # rev d"
    using assms(3) by (subst dropWhile_append2) auto
  then have head: "rev (dropWhile (\<lambda>c. c \<noteq> CHR ''/'') (rev (d @ ''/'' @ name))) = d @ ''/''"
    by simp
  have "last d \<in> set d" using assms(1) by simp
  then have "d @ ''/'' \<noteq> replicate n (CHR ''/'')" for n
    using assms(2) by (metis in_set_replicate set_append UnI1)
  then have cond: "d @ ''/'' \<noteq> [] \<and> d @ ''/'' \<noteq> replicate (length (d @ ''/'')) (CHR ''/'')"
    by blast
  have "dropWhile (\<lambda>c. c = CHR ''/'') (rev d) = rev d"
    using assms(1,2) by (cases "rev d") (auto simp: last_rev hd_rev)
  then have strip: "rev (dropWhile (\<lambda>c. c = CHR ''/'') (rev (d @ ''/''))) = d"
    by simp
  show ?thesis
    unfolding os_path_dirname_def head Let_def by (simp only: cond strip simp_thms if_True)
qed

lemma OUT_in_script_dir:
  assumes "d \<noteq> []" and "last d \<noteq> CHR ''/''" and "CHR ''/'' \<notin> set name"
    and "script_file h = d @ ''/'' @ name"
  shows "OUT h = d @ ''/../assets/icon.png''"
    and "os_path_dirname (OUT h) = d @ ''/../assets''"
proof -
  have dir: "os_path_dirname (script_file h) = d"
    unfolding assms(4) using assms(1-3) by (rule os_path_dirname_file)
  show out: "OUT h = d @ ''/../assets/icon.png''"
    using assms(1,2) by (simp add: OUT_def dir os_path_join_def join_step_def)
  have "os_path_dirname ((d @ ''/../assets'') @ ''/'' @ ''icon.png'') = d @ ''/../assets''"
    by (rule os_path_dirname_file) simp_all
  then show "os_path_dirname (OUT h) = d @ ''/../assets''"
    by (simp add: out)
qed

lemma str_nat_SIZE: "str_nat (nat SIZE) = ''1024''"
  by code_simp

section \<open>The dot cores\<close>

text \<open>
  C5. In every run that composes the image, the ellipses filled with the accent colour
  are exactly the three dot cores, drawn in this order: the circles centred at
  (300, 680), (512, 512) and (700, 360) with radii 70, 55 and 40, each filled with
  (99, 102, 241, 255), whose alpha 255 is fully opaque; the radii strictly decrease.
\<close>

theorem dot_cores:
  assumes "compose h = Inr img"
  shows "filter (ellipse_filled accent) (ops img) = map solid_dot dots \<and>
         map solid_dot dots =
           [Ellipse (bounding_box (300, 680) 70) (99, 102, 241, 255),
            Ellipse (bounding_box (512, 512) 55) (99, 102, 241, 255),
            Ellipse (bounding_box (700, 360) 40) (99, 102, 241, 255)] \<and>
         map (\<lambda>(x, y, r). r) dots = [70, 55, 40] \<and>
         sorted_wrt (\<lambda>r r'. r' < r) (map (\<lambda>(x, y, r). r) dots)"
proof -
  from assms compose_cases [of h] obtain f ds where ds: "draw_dots = Inr ds"
    and img: "img = \<lparr>mode = ''RGBA'', size = (1024, 1024), color = (0, 0, 0, 0),
                      ops = background @ ds @ trail @ chevrons @ [letter h f]\<rparr>"
    by auto
  have cores: "map solid_dot dots =
           [Ellipse (bounding_box (300, 680) 70) (99, 102, 241, 255),
            Ellipse (bounding_box (512, 512) 55) (99, 102, 241, 255),
            Ellipse (bounding_box (700, 360) 40) (99, 102, 241, 255)]"
    by (simp add: dots_def solid_dot_def bounding_box_def accent_def)
  have "filter (ellipse_filled accent) ds = map solid_dot dots"
    using ds unfolding cores draw_dots_eq
    by (auto simp: ellipse_filled_def accent_def bounding_box_def)
  then have "filter (ellipse_filled accent) (ops img) = map solid_dot dots"
    by (simp add: img background_def trail_def chevrons_def chevron_def letter_def
        ellipse_filled_def Let_def)
  with cores show ?thesis
    by (simp add: dots_def)
qed

text \<open>The host without fonts composes the image, and the three cores are in it.\<close>

theorem dot_cores_witness:
  "(\<exists>img. compose host_no_fonts = Inr img \<and>
      filter (ellipse_filled accent) (ops img) = map solid_dot dots \<and>
      map solid_dot dots =
        [Ellipse (bounding_box (300, 680) 70) (99, 102, 241, 255),
         Ellipse (bounding_box (512, 512) 55) (99, 102, 241, 255),
         Ellipse (bounding_box (700, 360) 40) (99, 102, 241, 255)] \<and>
      map (\<lambda>(x, y, r). r) dots = [70, 55, 40] \<and>
      sorted_wrt (\<lambda>r r'. r' < r) (map (\<lambda>(x, y, r). r) dots))"
proof -
  have "resolve_font host_no_fonts = Inr DefaultFont"
    by (simp add: resolve_font_def host_no_fonts_def caught_by_handler_def)
  from compose_resolved [OF this] obtain img where c: "compose host_no_fonts = Inr img"
    by blast
  show ?thesis
    using conjI [OF c dot_cores [OF c]] by (rule exI [where x = img])
qed

section \<open>Font resolution\<close>




section \<open>The letter\<close>

text \<open>
  C8, as stated, has the drawn glyph end 160 pixels from the right edge and 140 from
  the bottom edge, at 864 and 884. With a font whose box for \<open>B\<close> at the origin is
  (17, 46, 140, 204), the box of the glyph as drawn is (758, 772, 881, 930): it ends at
  881 and 930.
\<close>

theorem glyph_box_misses_margins:
  "resolve_font host_with_font = Inr (FreeTypeFont ''/System/Library/Fonts/SFCompact.ttf'' 220) \<and>
   textbbox host_with_font
     (text_origin (textbbox host_with_font (0, 0) ''B''
        (FreeTypeFont ''/System/Library/Fonts/SFCompact.ttf'' 220)))
     ''B'' (FreeTypeFont ''/System/Library/Fonts/SFCompact.ttf'' 220) = (758, 772, 881, 930) \<and>
   SIZE - 160 = 864 \<and> SIZE - 140 = 884"
  by (simp add: resolve_font_def host_with_font_def host_no_fonts_def textbbox_def
      text_origin_def SIZE_def Let_def)

text \<open>
  C8, amended. For every font, with \<open>(l, t, r, b)\<close> the measured box of \<open>B\<close> at the
  origin, the glyph is drawn with its origin at
  \<open>(1024 - (r - l) - 160, 1024 - (b - t) - 140)\<close>, and the box of the drawn glyph ends at
  \<open>1024 - 160 + l\<close> and \<open>1024 - 140 + t\<close>: at the margins exactly when the measured
  box starts at the origin.
\<close>

theorem glyph_box:
  "letter h f =
     (case getbbox h f ''B'' of (l, t, r, b) \<Rightarrow>
        Text (SIZE - (r - l) - 160, SIZE - (b - t) - 140) ''B'' (255, 255, 255, 35) f) \<and>
   textbbox h (text_origin (textbbox h (0, 0) ''B'' f)) ''B'' f =
     (case getbbox h f ''B'' of (l, t, r, b) \<Rightarrow>
        (SIZE - 160 - (r - l) + l, SIZE - 140 - (b - t) + t, SIZE - 160 + l, SIZE - 140 + t))"
  by (simp add: letter_def b_color_def textbbox_def text_origin_def Let_def split: prod.splits)

section \<open>The run\<close>

lemma run_composed:
  assumes "compose h = Inr img"
  shows "run h fs =
     (case makedirs_raises h (os_path_dirname (OUT h)) of
        Some e \<Rightarrow> (Inl e, fs)
      | None \<Rightarrow>
          (case save_outcome h (OUT h) of
             Saved \<Rightarrow>
               (Inr (message h),
                \<lparr>dirs = insert (os_path_dirname (OUT h)) (dirs fs),
                 files = (files fs)(OUT h \<mapsto> Encoded ''PNG'' img)\<rparr>)
           | SaveFailed e opened \<Rightarrow>
               (Inl e,
                \<lparr>dirs = insert (os_path_dirname (OUT h)) (dirs fs),
                 files = (if opened \<and> files fs (OUT h) \<noteq> None
                          then (files fs)(OUT h \<mapsto> Partial) else files fs)\<rparr>)))"
proof (cases "makedirs_raises h (os_path_dirname (OUT h))")
  case None
  then show ?thesis
    by (cases "save_outcome h (OUT h)")
       (auto simp: run_def assms os_makedirs_def Image_save_def)
next
  case (Some e)
  then show ?thesis
    by (simp add: run_def assms os_makedirs_def)
qed

lemma run_not_composed: "compose h = Inl e \<Longrightarrow> run h fs = (Inl e, fs)"
  by (simp add: run_def)

section \<open>The output file\<close>

lemma resolve_font_host_no_fonts: "resolve_font host_no_fonts = Inr DefaultFont"
  by (simp add: resolve_font_def host_no_fonts_def caught_by_handler_def)

lemma OUT_host_no_fonts: "OUT host_no_fonts = ''/repo/desktop/scripts/../assets/icon.png''"
  by (simp add: OUT_def host_no_fonts_def os_path_dirname_def os_path_join_def join_step_def)



text \<open>
  C1. Every run that ends by printing its line has composed one image, of mode RGBA and
  size 1024 by 1024, has created the directory of the destination with
  \<^verbatim>\<open>os.makedirs\<close> before saving, and has written the PNG encoding of that image to
  the destination and to no other path. For a script in directory \<open>d\<close> the destination
  is \<open>d/../assets/icon.png\<close> and the directory created is \<open>d/../assets\<close>.
\<close>

theorem run_writes_icon:
  assumes "run h fs = (Inr msg, fs')"
  shows "\<exists>img. compose h = Inr img \<and> mode img = ''RGBA'' \<and> size img = (1024, 1024) \<and>
           makedirs_raises h (os_path_dirname (OUT h)) = None \<and>
           dirs fs' = insert (os_path_dirname (OUT h)) (dirs fs) \<and>
           files fs' = (files fs)(OUT h \<mapsto> Encoded ''PNG'' img) \<and>
           (\<forall>d name. script_file h = d @ ''/'' @ name \<and> d \<noteq> [] \<and> last d \<noteq> CHR ''/'' \<and>
                      CHR ''/'' \<notin> set name \<longrightarrow>
              OUT h = d @ ''/../assets/icon.png'' \<and>
              os_path_dirname (OUT h) = d @ ''/../assets'')"
proof -
  from assms obtain img where c: "compose h = Inr img"
    by (cases "compose h") (auto simp: run_not_composed)
  from compose_cases [of h] c have shape: "mode img = ''RGBA''" "size img = (1024, 1024)"
    by auto
  from assms have m: "makedirs_raises h (os_path_dirname (OUT h)) = None"
    and s: "save_outcome h (OUT h) = Saved"
    unfolding run_composed [OF c] by (auto split: option.splits save_result.splits)
  from assms have fs': "fs' = \<lparr>dirs = insert (os_path_dirname (OUT h)) (dirs fs),
                               files = (files fs)(OUT h \<mapsto> Encoded ''PNG'' img)\<rparr>"
    unfolding run_composed [OF c] by (simp add: m s)
  have paths: "\<forall>d name. script_file h = d @ ''/'' @ name \<and> d \<noteq> [] \<and> last d \<noteq> CHR ''/'' \<and>
                      CHR ''/'' \<notin> set name \<longrightarrow>
              OUT h = d @ ''/../assets/icon.png'' \<and>
              os_path_dirname (OUT h) = d @ ''/../assets''"
  proof (intro allI impI)
    fix d name
    assume a: "script_file h = d @ ''/'' @ name \<and> d \<noteq> [] \<and> last d \<noteq> CHR ''/'' \<and>
                      CHR ''/'' \<notin> set name"
    then have a1: "d \<noteq> []" and a2: "last d \<noteq> CHR ''/''" and a3: "CHR ''/'' \<notin> set name"
      and a4: "script_file h = d @ ''/'' @ name"
      by simp_all
    from OUT_in_script_dir [OF a1 a2 a3 a4]
    show "OUT h = d @ ''/../assets/icon.png'' \<and> os_path_dirname (OUT h) = d @ ''/../assets''"
      by (rule conjI)
  qed
  have d: "dirs fs' = insert (os_path_dirname (OUT h)) (dirs fs)"
    and f: "files fs' = (files fs)(OUT h \<mapsto> Encoded ''PNG'' img)"
    by (simp_all add: fs')
  from c shape m d f paths show ?thesis
    by (intro exI [where x = img] conjI)
qed

text \<open>The run on the host without fonts, from an empty filesystem.\<close>

theorem run_writes_icon_witness:
  "fst (run host_no_fonts empty_fs) =
     Inr ''Icon saved to /repo/desktop/scripts/../assets/icon.png (1024x1024)'' \<and>
   dirs (snd (run host_no_fonts empty_fs)) = {''/repo/desktop/scripts/../assets''} \<and>
   (\<exists>img. compose host_no_fonts = Inr img \<and> mode img = ''RGBA'' \<and> size img = (1024, 1024) \<and>
      files (snd (run host_no_fonts empty_fs)) =
        [''/repo/desktop/scripts/../assets/icon.png'' \<mapsto> Encoded ''PNG'' img])"
proof -
  from compose_resolved [OF resolve_font_host_no_fonts]
  obtain img0 where c: "compose host_no_fonts = Inr img0" by blast
  have ok: "makedirs_raises host_no_fonts p = None" "save_outcome host_no_fonts p = Saved" for p
    by (simp_all add: host_no_fonts_def)
  have m: "fst (run host_no_fonts empty_fs) =
     Inr ''Icon saved to /repo/desktop/scripts/../assets/icon.png (1024x1024)''"
    unfolding run_composed [OF c]
    by (simp add: ok message_def OUT_host_no_fonts str_nat_SIZE)
  then have "run host_no_fonts empty_fs =
     (Inr ''Icon saved to /repo/desktop/scripts/../assets/icon.png (1024x1024)'',
      snd (run host_no_fonts empty_fs))"
    by (metis prod.collapse)
  from run_writes_icon [OF this] obtain img where
    i: "compose host_no_fonts = Inr img" "mode img = ''RGBA''" "size img = (1024, 1024)"
    and d: "dirs (snd (run host_no_fonts empty_fs)) =
              insert (os_path_dirname (OUT host_no_fonts)) (dirs empty_fs)"
    and f: "files (snd (run host_no_fonts empty_fs)) =
              (files empty_fs)(OUT host_no_fonts \<mapsto> Encoded ''PNG'' img)"
    and p: "\<forall>d name. script_file host_no_fonts = d @ ''/'' @ name \<and> d \<noteq> [] \<and>
               last d \<noteq> CHR ''/'' \<and> CHR ''/'' \<notin> set name \<longrightarrow>
              OUT host_no_fonts = d @ ''/../assets/icon.png'' \<and>
              os_path_dirname (OUT host_no_fonts) = d @ ''/../assets''"
    by (elim exE conjE)
  have "script_file host_no_fonts = ''/repo/desktop/scripts'' @ ''/'' @ ''generate-icon.py'' \<and>
      ''/repo/desktop/scripts'' \<noteq> [] \<and> last ''/repo/desktop/scripts'' \<noteq> CHR ''/'' \<and>
      CHR ''/'' \<notin> set ''generate-icon.py''"
    by (simp add: host_no_fonts_def)
  note q = p [rule_format, OF this]
  have o: "OUT host_no_fonts = ''/repo/desktop/scripts/../assets/icon.png''"
    using q [THEN conjunct1] by simp
  have od: "os_path_dirname (OUT host_no_fonts) = ''/repo/desktop/scripts/../assets''"
    using q [THEN conjunct2] by simp
  have d': "dirs (snd (run host_no_fonts empty_fs)) = {''/repo/desktop/scripts/../assets''}"
    unfolding d od by (simp add: empty_fs_def)
  have f': "files (snd (run host_no_fonts empty_fs)) =
        [''/repo/desktop/scripts/../assets/icon.png'' \<mapsto> Encoded ''PNG'' img]"
    unfolding f o by (simp add: empty_fs_def)
  from i f' have "\<exists>img. compose host_no_fonts = Inr img \<and> mode img = ''RGBA'' \<and>
      size img = (1024, 1024) \<and>
      files (snd (run host_no_fonts empty_fs)) =
        [''/repo/desktop/scripts/../assets/icon.png'' \<mapsto> Encoded ''PNG'' img]"
    by (intro exI [where x = img] conjI)
  with m d' show ?thesis
    by (intro conjI)
qed




end
